theory Spec2Isabelle
  imports Complex_Main
begin

section \<open>Python values, strings and exceptions\<close>

text \<open>
  A Python \<open>str\<close> is a sequence of Unicode code points, so it is modelled as a list of
  natural numbers. \<open>ascii\<close> writes an ASCII literal of the source as such a list.
\<close>

type_synonym codepoint = nat
type_synonym pystr = "codepoint list"

definition ascii :: "string \<Rightarrow> pystr" where
  "ascii s = map of_char s"

text \<open>
  The values an action may hand back: \<open>None\<close>, a \<open>bool\<close>, an \<open>int\<close>, a float with a
  finite value, a \<open>str\<close>, or a value of any other kind (a non-finite float, a
  \<open>Decimal\<close>, a \<open>Fraction\<close>, a complex number, a container, an instance of a class with
  or without its own \<open>__eq__\<close>). Of a value of another kind the model keeps the two
  things a test can see: what \<open>v == True\<close> comes out as, and its truth value.

  \<open>eq_True v\<close> is the outcome of the test \<open>v == True\<close>. Numbers compare by value and
  \<open>bool\<close> is a subclass of \<open>int\<close>, so \<open>1 == True\<close> and \<open>1.0 == True\<close> hold; \<open>None\<close> and
  strings are never equal to a \<open>bool\<close>. \<open>truthy v\<close> is the value of \<open>bool(v)\<close>. A
  comparison that itself raises is not modelled.
\<close>

datatype pyval =
    PyNone | PyBool bool | PyInt int | PyFloat real | PyStr pystr
  | PyObject bool bool

fun eq_True :: "pyval \<Rightarrow> bool" where
  "eq_True PyNone = False"
| "eq_True (PyBool b) = b"
| "eq_True (PyInt n) = (n = 1)"
| "eq_True (PyFloat x) = (x = 1)"
| "eq_True (PyStr s) = False"
| "eq_True (PyObject eq t) = eq"

fun truthy :: "pyval \<Rightarrow> bool" where
  "truthy PyNone = False"
| "truthy (PyBool b) = b"
| "truthy (PyInt n) = (n \<noteq> 0)"
| "truthy (PyFloat x) = (x \<noteq> 0)"
| "truthy (PyStr s) = (s \<noteq> [])"
| "truthy (PyObject eq t) = t"

text \<open>
  Exceptions, by class. \<open>SystemExit\<close> (raised by \<open>exit\<close>) and \<open>KeyboardInterrupt\<close> derive
  from \<open>BaseException\<close> only: \<open>except Exception\<close> does not catch them.
\<close>

datatype pyexc =
    AttributeError | IndexError | TypeError | ValueError | OSError | RuntimeError
  | SystemExit int | KeyboardInterrupt

fun is_Exception :: "pyexc \<Rightarrow> bool" where
  "is_Exception (SystemExit c) = False"
| "is_Exception KeyboardInterrupt = False"
| "is_Exception e = True"

section \<open>The Oracle's response and the actions\<close>

text \<open>
  What \<open>run_gemini_conversation\<close> reads of a response: the chain
  \<open>response.candidates[0].content.parts[0].function_call\<close>, and the accessor
  \<open>response.text\<close>, which raises when the response has no text. Indexing an empty list
  raises \<open>IndexError\<close>; reading \<open>.parts\<close> of a missing content raises \<open>AttributeError\<close>.
  A \<open>function_call\<close> that is unset is falsy (\<open>None\<close> here).
\<close>

record fcall =
  name :: pystr
  args :: "(pystr \<times> pyval) list option"

record part =
  function_call :: "fcall option"

record content =
  parts :: "part list"

record candidate =
  content :: "content option"

record response =
  candidates :: "candidate list"
  response_text :: "pyexc + pystr"

definition first_function_call :: "response \<Rightarrow> pyexc + fcall option" where
  "first_function_call r =
     (case candidates r of
        [] \<Rightarrow> Inl IndexError
      | c # _ \<Rightarrow>
          (case content c of
             None \<Rightarrow> Inl AttributeError
           | Some ct \<Rightarrow>
               (case parts ct of
                  [] \<Rightarrow> Inl IndexError
                | p # _ \<Rightarrow> Inr (function_call p))))"

text \<open>
  An action is called with keyword arguments and either returns a value at once or a
  coroutine, whose awaiting gives the value (or raises).
\<close>

datatype call_result = Plain pyval | Coroutine "pyexc + pyval"

type_synonym action = "(pystr \<times> pyval) list \<Rightarrow> pyexc + call_result"

section \<open>The world of one poll cycle\<close>

text \<open>
  Everything outside the program that one pass of the loop can observe: whether the
  transcript exists, what \<open>os.path.getmtime\<close> gives, the lines the opened file yields
  (or the error of opening or decoding it), the answer of \<open>model.generate_content\<close> to a
  prompt, and the imported action \<open>dispense_drink\<close>. File times are only compared for
  equality.
\<close>

record world =
  path_exists :: bool
  getmtime :: "pyexc + real"
  file_read :: "pyexc + pystr list"
  generate_content :: "pystr \<Rightarrow> pyexc + response"
  dispense_drink :: action

definition available_tools :: "world \<Rightarrow> (pystr \<rightharpoonup> action)" where
  "available_tools w = [ascii ''dispense_drink'' \<mapsto> dispense_drink w]"

definition SYSTEM_PROMPT :: pystr where
  \<open>SYSTEM_PROMPT = ascii (concat (map (\<lambda>l. l @ [CHR 0x0A])
     [''You are an AI assistant controlling physical devices...'',
      [],
      ''IMPORTANT: When someone expresses thirst or wants a drink in ANY way, immediately use the dispense_drink() function. Do NOT ask questions or provide alternatives - just dispense the drink.'',
      [],
      ''Examples of when to dispense a drink:'',
      ''- "I'm thirsty"'',
      ''- "I need a drink" '',
      ''- "Give me something to drink"'',
      ''- "I want water"'',
      ''- "I could use a drink"'',
      ''- "Wish I had a drink"'',
      ''- "I'm parched"'',
      ''- "Get me a beverage"'',
      ''- Any mention of being thirsty or wanting liquid refreshment'',
      [],
      ''Your role is to take action, not to explain limitations. If someone wants a drink, dispense it immediately using the available tool.'',
      [],
      ''If the user does not mention the word - drink or thirst; however, do not call any tool at your disposal.'']))\<close>

definition full_prompt :: "pystr \<Rightarrow> pystr" where
  "full_prompt user_prompt =
     SYSTEM_PROMPT @ ascii [CHR 0x0A, CHR 0x0A] @ ascii ''User request: '' @ user_prompt"

section \<open>Effects: watcher state, events, exceptions\<close>

text \<open>
  The two local variables of \<open>main\<close> that survive from one pass of the loop to the next.
\<close>

record watch_state =
  last_mtime :: "real option"
  last_processed_line :: pystr

text \<open>What the program does to the outside, in order: the trace of a run.\<close>

datatype msg =
    MsgReady | MsgMonitoring
  | MsgNewRequest | MsgUser pystr
  | MsgWantsCall pystr "(pystr \<times> pyval) list"
  | MsgResult pyval | MsgSuccess
  | MsgUnknown pystr | MsgNoCall
  | MsgText pystr | MsgNonText

datatype event =
    CheckExists | StatMtime | ReadFile
  | OracleCall pystr
  | Invoke pystr "(pystr \<times> pyval) list"
  | Print msg
  | WriteFile pystr pystr
  | Sleep

text \<open>
  A statement runs in a watcher state and gives a value or a raised exception, the new
  state and the events it emitted. \<open>bind\<close> is sequencing: a raised exception skips the
  rest. \<open>try_except\<close> runs the handler for the exception classes it names and lets every
  other exception pass.
\<close>

type_synonym 'a prog = "watch_state \<Rightarrow> (pyexc + 'a) \<times> watch_state \<times> event list"

definition ret :: "'a \<Rightarrow> 'a prog" where
  "ret x = (\<lambda>s. (Inr x, s, []))"

definition raise :: "pyexc \<Rightarrow> 'a prog" where
  "raise e = (\<lambda>s. (Inl e, s, []))"

definition lift :: "pyexc + 'a \<Rightarrow> 'a prog" where
  "lift r = (\<lambda>s. (r, s, []))"

definition emit :: "event \<Rightarrow> unit prog" where
  "emit ev = (\<lambda>s. (Inr (), s, [ev]))"

definition bind :: "'a prog \<Rightarrow> ('a \<Rightarrow> 'b prog) \<Rightarrow> 'b prog" where
  "bind m f = (\<lambda>s.
     case m s of
       (Inl e, s', es) \<Rightarrow> (Inl e, s', es)
     | (Inr x, s', es) \<Rightarrow> (case f x s' of (r, s'', es') \<Rightarrow> (r, s'', es @ es')))"

definition try_except :: "'a prog \<Rightarrow> (pyexc \<Rightarrow> bool) \<Rightarrow> 'a prog \<Rightarrow> 'a prog" where
  "try_except m caught handler = (\<lambda>s.
     case m s of
       (Inl e, s', es) \<Rightarrow>
         (if caught e then (case handler s' of (r, s'', es') \<Rightarrow> (r, s'', es @ es'))
          else (Inl e, s', es))
     | (Inr x, s', es) \<Rightarrow> (Inr x, s', es))"

definition exit :: "int \<Rightarrow> unit prog" where
  "exit code = raise (SystemExit code)"

text \<open>
  \<open>awaited\<close> is the value of the action's result: a coroutine is awaited, anything else
  is taken as it is.
\<close>

fun awaited :: "call_result \<Rightarrow> pyexc + pyval" where
  "awaited (Coroutine r) = r"
| "awaited (Plain v) = Inr v"

section \<open>run_gemini_conversation\<close>

definition run_gemini_conversation :: "world \<Rightarrow> pystr \<Rightarrow> unit prog" where
  "run_gemini_conversation w user_prompt =
     bind (emit (Print MsgNewRequest)) (\<lambda>_.
     bind (emit (Print (MsgUser user_prompt))) (\<lambda>_.
     bind (emit (OracleCall (full_prompt user_prompt))) (\<lambda>_.
     bind (lift (generate_content w (full_prompt user_prompt))) (\<lambda>response.
     try_except
       (bind (lift (first_function_call response)) (\<lambda>function_call.
          case function_call of
            Some fc \<Rightarrow>
              (let function_name = name fc;
                   kwargs = (case args fc of None \<Rightarrow> [] | Some a \<Rightarrow> a) in
               bind (emit (Print (MsgWantsCall function_name kwargs))) (\<lambda>_.
               case available_tools w function_name of
                 Some function_to_call \<Rightarrow>
                   bind (emit (Invoke function_name kwargs)) (\<lambda>_.
                   bind (lift (function_to_call kwargs)) (\<lambda>call_result.
                   bind (lift (awaited call_result)) (\<lambda>result.
                   bind (emit (Print (MsgResult result))) (\<lambda>_.
                   if eq_True result then
                     bind (emit (Print MsgSuccess)) (\<lambda>_.
                     bind (exit 0) (\<lambda>_.
                     emit (WriteFile (ascii ''dispense_done.flag'') (ascii ''done''))))
                   else ret ()))))
               | None \<Rightarrow> emit (Print (MsgUnknown function_name))))
          | None \<Rightarrow> emit (Print MsgNoCall)))
       (\<lambda>e. e = AttributeError \<or> e = IndexError)
       (try_except
          (bind (lift (response_text response)) (\<lambda>t. emit (Print (MsgText t))))
          is_Exception
          (emit (Print MsgNonText)))))))"

section \<open>get_last_line\<close>

text \<open>
  \<open>str.strip()\<close> removes the leading and trailing characters for which \<open>str.isspace\<close>
  holds: the ASCII controls 9 to 13 and 28 to 31, the space, and the Unicode spaces and
  separators.
\<close>

definition is_space :: "codepoint \<Rightarrow> bool" where
  "is_space c =
     (c \<in> {9, 10, 11, 12, 13, 28, 29, 30, 31, 32, 133, 160, 5760}
      \<or> (8192 \<le> c \<and> c \<le> 8202)
      \<or> c \<in> {8232, 8233, 8239, 8287, 12288})"

definition strip :: "pystr \<Rightarrow> pystr" where
  "strip s = rev (dropWhile is_space (rev (dropWhile is_space s)))"

text \<open>
  \<open>get_last_line\<close> on the lines the opened file yields; the error of opening the file
  is the world's and passes through \<open>read_last_line\<close>.
\<close>

definition get_last_line :: "pystr list \<Rightarrow> pystr option" where
  "get_last_line file =
     (let lines = map strip (filter (\<lambda>line. strip line \<noteq> []) file)
      in if lines \<noteq> [] then Some (last lines) else None)"

definition read_last_line :: "world \<Rightarrow> pystr option prog" where
  "read_last_line w =
     bind (emit ReadFile) (\<lambda>_.
     bind (lift (file_read w)) (\<lambda>file.
     ret (get_last_line file)))"

section \<open>main\<close>

definition set_last_mtime :: "real option \<Rightarrow> unit prog" where
  "set_last_mtime t = (\<lambda>s. (Inr (), s\<lparr>last_mtime := t\<rparr>, []))"

definition set_last_processed_line :: "pystr \<Rightarrow> unit prog" where
  "set_last_processed_line l = (\<lambda>s. (Inr (), s\<lparr>last_processed_line := l\<rparr>, []))"

definition get_state :: "watch_state prog" where
  "get_state = (\<lambda>s. (Inr s, s, []))"

text \<open>One pass of the \<open>while True\<close> loop: the check of the transcript, then the sleep.\<close>

definition check_transcript :: "world \<Rightarrow> unit prog" where
  "check_transcript w =
     bind (emit CheckExists) (\<lambda>_.
     if path_exists w then
       bind (emit StatMtime) (\<lambda>_.
       bind (lift (getmtime w)) (\<lambda>mtime.
       bind get_state (\<lambda>s.
       if last_mtime s = None \<or> Some mtime \<noteq> last_mtime s then
         bind (set_last_mtime (Some mtime)) (\<lambda>_.
         bind (read_last_line w) (\<lambda>latest_line.
         case latest_line of
           Some l \<Rightarrow>
             if l \<noteq> [] \<and> l \<noteq> last_processed_line s then
               bind (set_last_processed_line l) (\<lambda>_.
               run_gemini_conversation w l)
             else ret ()
         | None \<Rightarrow> ret ()))
       else ret ())))
     else ret ())"

definition loop_body :: "world \<Rightarrow> unit prog" where
  "loop_body w = bind (check_transcript w) (\<lambda>_. emit Sleep)"

text \<open>
  The loop never ends by itself, so a run is followed for as many passes as there are
  worlds: \<open>Inr ()\<close> says the loop is still running after them, \<open>Inl e\<close> that \<open>e\<close> left
  the loop, and then the process, before.
\<close>

fun main_loop :: "world list \<Rightarrow> unit prog" where
  "main_loop [] = ret ()"
| "main_loop (w # ws) = bind (loop_body w) (\<lambda>_. main_loop ws)"

definition initial_state :: watch_state where
  "initial_state = \<lparr>last_mtime = None, last_processed_line = []\<rparr>"

definition main :: "world list \<Rightarrow> (pyexc + unit) \<times> watch_state \<times> event list" where
  "main ws =
     bind (emit (Print MsgReady)) (\<lambda>_.
     bind (emit (Print MsgMonitoring)) (\<lambda>_.
     main_loop ws)) initial_state"

text \<open>
  The status the process ends with: the code of a \<open>SystemExit\<close>; 130 for a
  \<open>KeyboardInterrupt\<close>, which ends the process by the signal \<open>SIGINT\<close> (a shell reports
  128 + 2); 1 for any other exception that leaves \<open>main\<close>; none while the loop runs.
\<close>

fun exit_status :: "pyexc + unit \<Rightarrow> int option" where
  "exit_status (Inr _) = None"
| "exit_status (Inl (SystemExit c)) = Some c"
| "exit_status (Inl KeyboardInterrupt) = Some 130"
| "exit_status (Inl _) = Some 1"

section \<open>Reading a trace\<close>

text \<open>
  The loop prints every action result (\<open>MsgResult\<close>) as soon as it has it. A trace
  event is a success result when the printed value passes the test \<open>result == True\<close>.
\<close>

fun is_success_result :: "event \<Rightarrow> bool" where
  "is_success_result (Print (MsgResult v)) = eq_True v"
| "is_success_result _ = False"

text \<open>The events of a pass that only looks at the transcript.\<close>

fun is_watch_event :: "event \<Rightarrow> bool" where
  "is_watch_event CheckExists = True"
| "is_watch_event StatMtime = True"
| "is_watch_event ReadFile = True"
| "is_watch_event Sleep = True"
| "is_watch_event _ = False"

section \<open>Sample inputs\<close>

text \<open>
  Concrete responses, transcripts and worlds at which the theorems below are
  instantiated: a response that selects \<open>dispense_drink\<close>, one that selects an action
  nobody registered, one with no candidate and no text, and a transcript whose last
  non-blank line is followed by a blank one.
\<close>

definition call_response :: "pystr \<Rightarrow> response" where
  "call_response fname =
     \<lparr>candidates =
        [\<lparr>content = Some \<lparr>parts = [\<lparr>function_call = Some \<lparr>name = fname, args = None\<rparr>\<rparr>]\<rparr>\<rparr>],
      response_text = Inl ValueError\<rparr>"

definition empty_response :: response where
  "empty_response = \<lparr>candidates = [], response_text = Inl ValueError\<rparr>"

definition sample_world :: "real \<Rightarrow> pystr list \<Rightarrow> response \<Rightarrow> pyval \<Rightarrow> world" where
  "sample_world t file resp v =
     \<lparr>path_exists = True, getmtime = Inr t, file_read = Inr file,
      generate_content = (\<lambda>_. Inr resp), dispense_drink = (\<lambda>_. Inr (Plain v))\<rparr>"

definition unreadable_world :: world where
  "unreadable_world =
     \<lparr>path_exists = True, getmtime = Inr 1, file_read = Inl OSError,
      generate_content = (\<lambda>_. Inl RuntimeError), dispense_drink = (\<lambda>_. Inl RuntimeError)\<rparr>"

definition thirsty_file :: "pystr list" where
  \<open>thirsty_file = [ascii ''hello\<newline>'', ascii ''  I'm thirsty \<newline>'', ascii '' \<newline>'']\<close>

definition thirsty :: pystr where
  \<open>thirsty = ascii ''I'm thirsty''\<close>

definition blank_file :: "pystr list" where
  "blank_file = [ascii ''  \<newline>'', ascii ''\<newline>'']"

section \<open>Properties\<close>

lemmas prog_defs = ret_def raise_def lift_def emit_def bind_def try_except_def exit_def
  set_last_mtime_def set_last_processed_line_def get_state_def

lemma dropWhile_all_iff: "(\<forall>x\<in>set (dropWhile P xs). P x) \<longleftrightarrow> (\<forall>x\<in>set xs. P x)"
proof
  assume a: "\<forall>x\<in>set (dropWhile P xs). P x"
  have "dropWhile P xs = []"
  proof (rule ccontr)
    assume ne: "dropWhile P xs \<noteq> []"
    then have "\<not> P (hd (dropWhile P xs))" by (rule hd_dropWhile)
    moreover have "hd (dropWhile P xs) \<in> set (dropWhile P xs)" using ne by simp
    ultimately show False using a by blast
  qed
  then show "\<forall>x\<in>set xs. P x" by (simp add: dropWhile_eq_Nil_conv)
next
  assume "\<forall>x\<in>set xs. P x"
  then show "\<forall>x\<in>set (dropWhile P xs). P x" by (meson set_dropWhileD)
qed

lemma strip_Nil_iff: "strip l = [] \<longleftrightarrow> (\<forall>c\<in>set l. is_space c)"
proof -
  have "strip l = [] \<longleftrightarrow> (\<forall>c\<in>set (dropWhile is_space l). is_space c)"
    by (simp add: strip_def dropWhile_eq_Nil_conv)
  then show ?thesis by (simp add: dropWhile_all_iff)
qed

lemma strip_decomp:
  "l = takeWhile is_space l @ strip l @ rev (takeWhile is_space (rev (dropWhile is_space l)))"
proof -
  let ?d = "dropWhile is_space l"
  have "rev (takeWhile is_space (rev ?d) @ dropWhile is_space (rev ?d)) = ?d"
    by (simp only: takeWhile_dropWhile_id rev_rev_ident)
  then have "?d = strip l @ rev (takeWhile is_space (rev ?d))"
    by (simp only: rev_append strip_def)
  moreover have "l = takeWhile is_space l @ ?d" by simp
  ultimately show ?thesis by metis
qed

lemma strip_ends:
  assumes "strip l \<noteq> []"
  shows "\<not> is_space (hd (strip l)) \<and> \<not> is_space (last (strip l))"
proof -
  let ?d = "dropWhile is_space l"
  let ?e = "dropWhile is_space (rev ?d)"
  have ne: "?e \<noteq> []" using assms by (simp add: strip_def)
  have l: "last (strip l) = hd ?e" using ne by (simp add: strip_def last_rev)
  have "\<not> is_space (hd ?e)" using ne by (rule hd_dropWhile)
  then have a: "\<not> is_space (last (strip l))" using l by simp
  have dne: "?d \<noteq> []" using ne by (cases "dropWhile is_space l") simp_all
  have "\<exists>ys. ?d = strip l @ ys" using strip_decomp[of l]
    by (metis same_append_eq takeWhile_dropWhile_id)
  then obtain ys where ys: "?d = strip l @ ys" by blast
  have "hd ?d = hd (strip l)" using assms ys by (metis hd_append2)
  moreover have "\<not> is_space (hd ?d)" using dne by (rule hd_dropWhile)
  ultimately show ?thesis using a by simp
qed

lemma get_last_line_None_iff: "get_last_line f = None \<longleftrightarrow> (\<forall>l\<in>set f. strip l = [])"
  by (auto simp: get_last_line_def Let_def filter_empty_conv)

lemma get_last_line_Some_iff:
  "get_last_line f = Some u \<longleftrightarrow>
     (\<exists>pre l post. f = pre @ l # post \<and> u = strip l \<and> u \<noteq> [] \<and> (\<forall>x\<in>set post. strip x = []))"
proof
  assume a: "get_last_line f = Some u"
  then have ex: "\<exists>l\<in>set f. strip l \<noteq> []"
    using get_last_line_None_iff[of f] by auto
  then obtain pre l post where f: "f = pre @ l # post" and l: "strip l \<noteq> []"
      and post: "\<forall>x\<in>set post. \<not> strip x \<noteq> []"
    using split_list_last_prop[of f "\<lambda>l. strip l \<noteq> []"] by blast
  have "filter (\<lambda>l. strip l \<noteq> []) post = []" using post by (simp add: filter_empty_conv)
  then have "get_last_line f = Some (strip l)"
    using f l by (simp add: get_last_line_def Let_def)
  then show "\<exists>pre l post. f = pre @ l # post \<and> u = strip l \<and> u \<noteq> [] \<and> (\<forall>x\<in>set post. strip x = [])"
    using a f l post by auto
next
  assume "\<exists>pre l post. f = pre @ l # post \<and> u = strip l \<and> u \<noteq> [] \<and> (\<forall>x\<in>set post. strip x = [])"
  then obtain pre l post where f: "f = pre @ l # post" and u: "u = strip l" "u \<noteq> []"
     and post: "\<forall>x\<in>set post. strip x = []" by blast
  have "filter (\<lambda>l. strip l \<noteq> []) post = []" using post by (simp add: filter_empty_conv)
  then show "get_last_line f = Some u"
    using f u by (simp add: get_last_line_def Let_def)
qed

lemma get_last_line_nonempty: "get_last_line f = Some u \<Longrightarrow> u \<noteq> []"
  by (auto simp: get_last_line_Some_iff)

lemma run_state: "run_gemini_conversation w u s = (r, s', es) \<Longrightarrow> s' = s"
  unfolding run_gemini_conversation_def prog_defs
  by (auto simp: Let_def split: sum.splits option.splits call_result.splits if_splits prod.splits)

lemma run_prefix: "run_gemini_conversation w u s = (r, s', es) \<Longrightarrow>
   \<exists>rest. es = [Print MsgNewRequest, Print (MsgUser u), OracleCall (full_prompt u)] @ rest"
  unfolding run_gemini_conversation_def prog_defs
  by (auto simp: Let_def split: sum.splits option.splits call_result.splits if_splits prod.splits)

lemma run_no_write: "run_gemini_conversation w u s = (r, s', es) \<Longrightarrow> WriteFile p c \<notin> set es"
  unfolding run_gemini_conversation_def prog_defs
  by (auto simp: Let_def split: sum.splits option.splits call_result.splits if_splits prod.splits)

lemma run_success: "run_gemini_conversation w u s = (r, s', es) \<Longrightarrow> list_ex is_success_result es \<Longrightarrow>
   r = Inl (SystemExit 0) \<and> (\<exists>pre n a v. es = pre @ [Invoke n a, Print (MsgResult v), Print MsgSuccess]
      \<and> eq_True v \<and> \<not> list_ex is_success_result pre)"
  unfolding run_gemini_conversation_def prog_defs
  by (auto simp: Let_def split: sum.splits option.splits call_result.splits if_splits prod.splits)


lemmas sample_defs = sample_world_def call_response_def empty_response_def
  first_function_call_def available_tools_def ascii_def

lemma first_function_call_error:
  "first_function_call r = Inl e \<Longrightarrow> e = AttributeError \<or> e = IndexError"
  by (auto simp: first_function_call_def split: list.splits option.splits)

text \<open>
  Claim C6. When the response selects an action whose name is not a key of
  \<open>available_tools\<close>, the call prints the unknown-function error, invokes nothing
  (the trace has no \<open>Invoke\<close>), does not raise, and leaves the watcher state as it was;
  whatever statement \<open>k\<close> follows the call (the sleep, then the next pass) runs next.
\<close>
theorem unknown_action_is_no_action:
  assumes "generate_content w (full_prompt u) = Inr r"
      and "first_function_call r = Inr (Some fc)"
      and "available_tools w (name fc) = None"
  shows "run_gemini_conversation w u s =
           (Inr (), s,
            [Print MsgNewRequest, Print (MsgUser u), OracleCall (full_prompt u),
             Print (MsgWantsCall (name fc) (case args fc of None \<Rightarrow> [] | Some a \<Rightarrow> a)),
             Print (MsgUnknown (name fc))])
         \<and> bind (run_gemini_conversation w u) k s =
           (case k () s of (r', s', es) \<Rightarrow>
              (r', s',
               [Print MsgNewRequest, Print (MsgUser u), OracleCall (full_prompt u),
                Print (MsgWantsCall (name fc) (case args fc of None \<Rightarrow> [] | Some a \<Rightarrow> a)),
                Print (MsgUnknown (name fc))] @ es))"
proof -
  have none: "available_tools w (name fc) = None"
    using assms(3) .
  have run: "run_gemini_conversation w u s =
           (Inr (), s,
            [Print MsgNewRequest, Print (MsgUser u), OracleCall (full_prompt u),
             Print (MsgWantsCall (name fc) (case args fc of None \<Rightarrow> [] | Some a \<Rightarrow> a)),
             Print (MsgUnknown (name fc))])"
    using assms(1,2) none unfolding run_gemini_conversation_def prog_defs
    by (simp add: Let_def)
  then show ?thesis by (simp add: bind_def split: prod.splits)
qed

theorem unknown_action_is_no_action_witness:
  "run_gemini_conversation (sample_world 1 thirsty_file (call_response (ascii ''open_door'')) (PyBool True))
       thirsty initial_state =
     (Inr (), initial_state,
      [Print MsgNewRequest, Print (MsgUser thirsty), OracleCall (full_prompt thirsty),
       Print (MsgWantsCall (ascii ''open_door'') []), Print (MsgUnknown (ascii ''open_door''))])"
  using unknown_action_is_no_action
    [of "sample_world 1 thirsty_file (call_response (ascii ''open_door'')) (PyBool True)" thirsty
        "call_response (ascii ''open_door'')" "\<lparr>name = ascii ''open_door'', args = None\<rparr>" initial_state "ret"]
  by (simp add: sample_defs)

text \<open>
  Claim C7. When neither a function call nor a text can be read from the response
  (the chain of accesses raises, and so does \<open>response.text\<close>), the call prints the
  non-text message, invokes nothing, raises nothing and leaves the watcher state as it
  was; whatever statement \<open>k\<close> follows the call runs next.
\<close>
theorem malformed_response_is_not_fatal:
  assumes "generate_content w (full_prompt u) = Inr r"
      and "first_function_call r = Inl e"
      and "response_text r = Inl e'"
      and "is_Exception e'"
  shows "run_gemini_conversation w u s =
           (Inr (), s,
            [Print MsgNewRequest, Print (MsgUser u), OracleCall (full_prompt u), Print MsgNonText])
         \<and> bind (run_gemini_conversation w u) k s =
           (case k () s of (r', s', es) \<Rightarrow>
              (r', s',
               [Print MsgNewRequest, Print (MsgUser u), OracleCall (full_prompt u),
                Print MsgNonText] @ es))"
proof -
  have e: "e = AttributeError \<or> e = IndexError"
    using assms(2) by (rule first_function_call_error)
  have run: "run_gemini_conversation w u s =
           (Inr (), s,
            [Print MsgNewRequest, Print (MsgUser u), OracleCall (full_prompt u), Print MsgNonText])"
    using assms e unfolding run_gemini_conversation_def prog_defs
    by auto
  then show ?thesis by (simp add: bind_def split: prod.splits)
qed

theorem malformed_response_is_not_fatal_witness:
  "run_gemini_conversation (sample_world 1 thirsty_file empty_response (PyBool True))
       thirsty initial_state =
     (Inr (), initial_state,
      [Print MsgNewRequest, Print (MsgUser thirsty), OracleCall (full_prompt thirsty),
       Print MsgNonText])"
  using malformed_response_is_not_fatal
    [of "sample_world 1 thirsty_file empty_response (PyBool True)" thirsty
        empty_response IndexError ValueError initial_state "ret"]
  by (simp add: sample_defs)

text \<open>
  Claim C2, as amended. For every value \<open>v\<close> a registered action returns (at once or
  through a coroutine), the call ends the process with \<open>SystemExit 0\<close> exactly when the
  test \<open>v == True\<close> holds, and returns normally, without ending the process, exactly
  when it does not. The test is Python's equality, not an identity: the printed trace
  is the same up to the result, and only the outcome of the comparison decides.
\<close>

theorem success_iff_equal_to_True:
  assumes "generate_content w (full_prompt u) = Inr r"
      and "first_function_call r = Inr (Some fc)"
      and "available_tools w (name fc) = Some f"
      and "f (case args fc of None \<Rightarrow> [] | Some a \<Rightarrow> a) = Inr cr"
      and "awaited cr = Inr v"
  shows "run_gemini_conversation w u s =
           (if eq_True v then Inl (SystemExit 0) else Inr (), s,
            [Print MsgNewRequest, Print (MsgUser u), OracleCall (full_prompt u),
             Print (MsgWantsCall (name fc) (case args fc of None \<Rightarrow> [] | Some a \<Rightarrow> a)),
             Invoke (name fc) (case args fc of None \<Rightarrow> [] | Some a \<Rightarrow> a),
             Print (MsgResult v)] @ (if eq_True v then [Print MsgSuccess] else []))
       \<and> (fst (run_gemini_conversation w u s) = Inl (SystemExit 0) \<longleftrightarrow> eq_True v)
       \<and> (fst (run_gemini_conversation w u s) = Inr () \<longleftrightarrow> \<not> eq_True v)"
  using assms unfolding run_gemini_conversation_def prog_defs
  by (simp add: Let_def)

theorem success_iff_equal_to_True_witness:
  "fst (run_gemini_conversation
          (sample_world 1 thirsty_file (call_response (ascii ''dispense_drink'')) (PyInt 2))
          thirsty initial_state) = Inr ()
   \<and> fst (run_gemini_conversation
          (sample_world 1 thirsty_file (call_response (ascii ''dispense_drink'')) (PyBool False))
          thirsty initial_state) = Inr ()
   \<and> fst (run_gemini_conversation
          (sample_world 1 thirsty_file (call_response (ascii ''dispense_drink'')) PyNone)
          thirsty initial_state) = Inr ()
   \<and> fst (run_gemini_conversation
          (sample_world 1 thirsty_file (call_response (ascii ''dispense_drink'')) (PyFloat 1))
          thirsty initial_state) = Inl (SystemExit 0)
   \<and> fst (run_gemini_conversation
          (sample_world 1 thirsty_file (call_response (ascii ''dispense_drink'')) (PyBool True))
          thirsty initial_state) = Inl (SystemExit 0)"
proof -
  let ?r = "call_response (ascii ''dispense_drink'')"
  let ?fc = "\<lparr>name = ascii ''dispense_drink'', args = None\<rparr>"
  have h: "generate_content (sample_world 1 thirsty_file ?r v) (full_prompt thirsty) = Inr ?r
      \<and> first_function_call ?r = Inr (Some ?fc)
      \<and> available_tools (sample_world 1 thirsty_file ?r v) (name ?fc) = Some (\<lambda>_. Inr (Plain v))
      \<and> (\<lambda>_. Inr (Plain v)) (case args ?fc of None \<Rightarrow> [] | Some a \<Rightarrow> a) = Inr (Plain v)
      \<and> awaited (Plain v) = Inr v" for v
    by (simp add: sample_defs)
  show ?thesis
    using success_iff_equal_to_True
            [of "sample_world 1 thirsty_file ?r (PyInt 2)" thirsty ?r ?fc
                "\<lambda>_. Inr (Plain (PyInt 2))" "Plain (PyInt 2)" "PyInt 2" initial_state]
          success_iff_equal_to_True
            [of "sample_world 1 thirsty_file ?r (PyBool False)" thirsty ?r ?fc
                "\<lambda>_. Inr (Plain (PyBool False))" "Plain (PyBool False)" "PyBool False" initial_state]
          success_iff_equal_to_True
            [of "sample_world 1 thirsty_file ?r PyNone" thirsty ?r ?fc
                "\<lambda>_. Inr (Plain PyNone)" "Plain PyNone" PyNone initial_state]
          success_iff_equal_to_True
            [of "sample_world 1 thirsty_file ?r (PyFloat 1)" thirsty ?r ?fc
                "\<lambda>_. Inr (Plain (PyFloat 1))" "Plain (PyFloat 1)" "PyFloat 1" initial_state]
          success_iff_equal_to_True
            [of "sample_world 1 thirsty_file ?r (PyBool True)" thirsty ?r ?fc
                "\<lambda>_. Inr (Plain (PyBool True))" "Plain (PyBool True)" "PyBool True" initial_state]
          h[of "PyInt 2"] h[of "PyBool False"] h[of PyNone] h[of "PyFloat 1"] h[of "PyBool True"]
    by simp
qed

text \<open>
  Claim C2 as stated fails: the integer 1 is not the boolean \<open>True\<close>, yet an action that
  returns it ends the process with status 0.
\<close>

theorem integer_one_counts_as_success:
  "PyInt 1 \<noteq> PyBool True \<and> truthy (PyInt 1)
   \<and> run_gemini_conversation
        (sample_world 1 thirsty_file (call_response (ascii ''dispense_drink'')) (PyInt 1))
        thirsty initial_state =
      (Inl (SystemExit 0), initial_state,
       [Print MsgNewRequest, Print (MsgUser thirsty), OracleCall (full_prompt thirsty),
        Print (MsgWantsCall (ascii ''dispense_drink'') []), Invoke (ascii ''dispense_drink'') [],
        Print (MsgResult (PyInt 1)), Print MsgSuccess])"
  unfolding run_gemini_conversation_def prog_defs
  by (simp add: sample_defs Let_def)


lemmas loop_defs = loop_body_def check_transcript_def read_last_line_def

text \<open>
  Claim C4. In every watcher state, a pass that finds the transcript absent, or finds
  its modification time equal to the recorded one, does not read the file, produces no
  utterance (its only events are the existence check, the stat and the sleep) and
  leaves the watcher state unchanged.
\<close>
theorem unchanged_file_is_skipped:
  assumes "\<not> path_exists w \<or> (\<exists>m. getmtime w = Inr m \<and> last_mtime s = Some m)"
  shows "loop_body w s =
           (Inr (), s, if path_exists w then [CheckExists, StatMtime, Sleep] else [CheckExists, Sleep])"
  using assms unfolding loop_defs prog_defs by auto

theorem unchanged_file_is_skipped_witness:
  "loop_body (sample_world 1 thirsty_file (call_response (ascii ''dispense_drink'')) (PyBool True))
       \<lparr>last_mtime = Some 1, last_processed_line = []\<rparr> =
     (Inr (), \<lparr>last_mtime = Some 1, last_processed_line = []\<rparr>, [CheckExists, StatMtime, Sleep])"
  using unchanged_file_is_skipped
    [of "sample_world 1 thirsty_file (call_response (ascii ''dispense_drink'')) (PyBool True)"
        "\<lparr>last_mtime = Some 1, last_processed_line = []\<rparr>"]
  by (simp add: sample_world_def)

text \<open>
  Claim C5. When the modification time has changed but the last non-empty line of the
  file is the line already processed, the pass reads the file, records the new time,
  and dispatches nothing: no Oracle call, no action.
\<close>
theorem same_line_is_not_dispatched:
  assumes "path_exists w"
      and "getmtime w = Inr m"
      and "last_mtime s \<noteq> Some m"
      and "file_read w = Inr file"
      and "get_last_line file = Some (last_processed_line s)"
  shows "loop_body w s =
           (Inr (), s\<lparr>last_mtime := Some m\<rparr>, [CheckExists, StatMtime, ReadFile, Sleep])"
  using assms unfolding loop_defs prog_defs by auto

lemma get_thirsty: "get_last_line thirsty_file = Some thirsty"
  by (simp add: get_last_line_def thirsty_file_def thirsty_def ascii_def strip_def is_space_def)

theorem same_line_is_not_dispatched_witness:
  "loop_body (sample_world 2 thirsty_file (call_response (ascii ''dispense_drink'')) (PyBool True))
       \<lparr>last_mtime = Some 1, last_processed_line = thirsty\<rparr> =
     (Inr (), \<lparr>last_mtime = Some 2, last_processed_line = thirsty\<rparr>,
      [CheckExists, StatMtime, ReadFile, Sleep])"
  using same_line_is_not_dispatched
    [of "sample_world 2 thirsty_file (call_response (ascii ''dispense_drink'')) (PyBool True)" 2
        "\<lparr>last_mtime = Some 1, last_processed_line = thirsty\<rparr>" thirsty_file]
  by (simp add: sample_world_def get_thirsty)

text \<open>The pass that dispatches: the state the call starts in has both fields updated.\<close>

lemma check_transcript_dispatch:
  assumes "path_exists w"
      and "getmtime w = Inr m"
      and "last_mtime s \<noteq> Some m"
      and "file_read w = Inr file"
      and "get_last_line file = Some u"
      and "u \<noteq> last_processed_line s"
  shows "check_transcript w s =
           (case run_gemini_conversation w u (s\<lparr>last_mtime := Some m, last_processed_line := u\<rparr>) of
              (r, s', es) \<Rightarrow> (r, s', [CheckExists, StatMtime, ReadFile] @ es))"
proof -
  have "u \<noteq> []" using assms(5) by (rule get_last_line_nonempty)
  then show ?thesis
    using assms unfolding loop_defs prog_defs
    by (auto split: prod.splits sum.splits)
qed

text \<open>
  Claim C9. On the first pass after the start the recorded time is \<open>None\<close>, so an
  existing transcript counts as changed: its last non-empty line, whenever it was
  written, is sent to the Oracle in that very pass.
\<close>
theorem first_poll_dispatches_existing_line:
  assumes "path_exists w"
      and "getmtime w = Inr m"
      and "file_read w = Inr file"
      and "get_last_line file = Some u"
  shows "\<exists>r s rest. main (w # ws) =
           (r, s,
            [Print MsgReady, Print MsgMonitoring, CheckExists, StatMtime, ReadFile,
             Print MsgNewRequest, Print (MsgUser u), OracleCall (full_prompt u)] @ rest)"
proof -
  have ne: "u \<noteq> last_processed_line initial_state"
    using get_last_line_nonempty[OF assms(4)] by (simp add: initial_state_def)
  have lm: "last_mtime initial_state \<noteq> Some m" by (simp add: initial_state_def)
  obtain r s' es where run:
    "run_gemini_conversation w u (initial_state\<lparr>last_mtime := Some m, last_processed_line := u\<rparr>) = (r, s', es)"
    by (metis prod_cases3)
  obtain rest where es: "es = [Print MsgNewRequest, Print (MsgUser u), OracleCall (full_prompt u)] @ rest"
    using run_prefix[OF run] by blast
  have ct: "check_transcript w initial_state = (r, s', [CheckExists, StatMtime, ReadFile] @ es)"
    using check_transcript_dispatch[OF assms(1,2) lm assms(3,4) ne] run by simp
  show ?thesis
    unfolding main_def main_loop.simps loop_body_def
    using ct es by (cases r) (auto simp: prog_defs split: prod.splits sum.splits)
qed

theorem first_poll_dispatches_existing_line_witness:
  "\<exists>r s rest. main [sample_world 7 thirsty_file (call_response (ascii ''dispense_drink'')) (PyBool False)] =
           (r, s,
            [Print MsgReady, Print MsgMonitoring, CheckExists, StatMtime, ReadFile,
             Print MsgNewRequest, Print (MsgUser thirsty), OracleCall (full_prompt thirsty)] @ rest)"
  using first_poll_dispatches_existing_line
    [of "sample_world 7 thirsty_file (call_response (ascii ''dispense_drink'')) (PyBool False)" 7
        thirsty_file thirsty "[]"]
  by (simp add: sample_world_def get_thirsty)


text \<open>Passes that do not dispatch.\<close>

lemma loop_body_no_line:
  assumes "file_read w = Inr file" and "get_last_line file = None"
  shows "case loop_body w s of (r, s', es) \<Rightarrow>
           list_all is_watch_event es \<and> last_processed_line s' = last_processed_line s"
  using assms unfolding loop_defs prog_defs
  by (auto split: prod.splits sum.splits)

text \<open>
  Claim C10. \<open>get_last_line\<close> returns \<open>None\<close> exactly when every line of the file
  consists of whitespace only (in particular when there is no line); otherwise it
  returns the stripped form of the last line that is not blank. Stripping removes
  whitespace at both ends and nothing else: a line is its stripped form between two
  runs of whitespace, and a stripped form that is not empty neither starts nor ends
  with whitespace. When \<open>get_last_line\<close> gives \<open>None\<close> the pass dispatches nothing.
\<close>
theorem get_last_line_spec:
  assumes "file_read w = Inr file"
  shows "(get_last_line file = None \<longleftrightarrow> (\<forall>l\<in>set file. \<forall>c\<in>set l. is_space c))
       \<and> (get_last_line file = Some u \<longleftrightarrow>
            (\<exists>pre l post. file = pre @ l # post \<and> u = strip l \<and> u \<noteq> []
               \<and> (\<forall>x\<in>set post. strip x = [])))
       \<and> (\<forall>l. \<exists>a b. l = a @ strip l @ b \<and> (\<forall>c\<in>set a. is_space c) \<and> (\<forall>c\<in>set b. is_space c)
               \<and> (strip l \<noteq> [] \<longrightarrow> \<not> is_space (hd (strip l)) \<and> \<not> is_space (last (strip l))))
       \<and> (get_last_line file = None \<longrightarrow>
            (case loop_body w s of (r, s', es) \<Rightarrow>
               list_all is_watch_event es \<and> last_processed_line s' = last_processed_line s))"
proof -
  have a: "get_last_line file = None \<longleftrightarrow> (\<forall>l\<in>set file. \<forall>c\<in>set l. is_space c)"
    by (simp add: get_last_line_None_iff strip_Nil_iff)
  have b: "get_last_line file = Some u \<longleftrightarrow>
            (\<exists>pre l post. file = pre @ l # post \<and> u = strip l \<and> u \<noteq> []
               \<and> (\<forall>x\<in>set post. strip x = []))"
    by (rule get_last_line_Some_iff)
  have c: "\<exists>a b. l = a @ strip l @ b \<and> (\<forall>c\<in>set a. is_space c) \<and> (\<forall>c\<in>set b. is_space c)
               \<and> (strip l \<noteq> [] \<longrightarrow> \<not> is_space (hd (strip l)) \<and> \<not> is_space (last (strip l)))" for l
  proof -
    let ?a = "takeWhile is_space l"
    let ?b = "rev (takeWhile is_space (rev (dropWhile is_space l)))"
    have "l = ?a @ strip l @ ?b" by (rule strip_decomp)
    moreover have "\<forall>c\<in>set ?a. is_space c" by (meson set_takeWhileD)
    moreover have "\<forall>c\<in>set ?b. is_space c" by (metis set_rev set_takeWhileD)
    moreover have "strip l \<noteq> [] \<longrightarrow> \<not> is_space (hd (strip l)) \<and> \<not> is_space (last (strip l))"
      using strip_ends by blast
    ultimately show ?thesis by blast
  qed
  have d: "get_last_line file = None \<longrightarrow>
            (case loop_body w s of (r, s', es) \<Rightarrow>
               list_all is_watch_event es \<and> last_processed_line s' = last_processed_line s)"
    using loop_body_no_line[OF assms, of s] by simp
  show ?thesis using a b c d by blast
qed

theorem get_last_line_spec_witness:
  "get_last_line thirsty_file = Some thirsty
   \<and> (\<exists>pre l post. thirsty_file = pre @ l # post \<and> thirsty = strip l \<and> thirsty \<noteq> []
         \<and> list_all (\<lambda>x. strip x = []) post)
   \<and> get_last_line blank_file = None
   \<and> list_all (list_all is_space) blank_file
   \<and> list_all is_watch_event
        (snd (snd (loop_body (sample_world 3 blank_file empty_response PyNone) initial_state)))"
proof -
  have t: "get_last_line thirsty_file = Some thirsty" by (rule get_thirsty)
  have n: "get_last_line blank_file = None"
    by (simp add: get_last_line_def blank_file_def ascii_def strip_def is_space_def)
  have r1: "file_read (sample_world 3 thirsty_file empty_response PyNone) = Inr thirsty_file"
    by (simp add: sample_world_def)
  have r2: "file_read (sample_world 3 blank_file empty_response PyNone) = Inr blank_file"
    by (simp add: sample_world_def)
  show ?thesis
    using get_last_line_spec[OF r1, of thirsty initial_state]
          get_last_line_spec[OF r2, of thirsty initial_state] t n
    by (auto simp: list_all_iff split: prod.splits)
qed

lemma run_user: "run_gemini_conversation w l s = (r, s', es) \<Longrightarrow> Print (MsgUser u) \<in> set es \<Longrightarrow> u = l"
  unfolding run_gemini_conversation_def prog_defs
  by (auto simp: Let_def split: sum.splits option.splits call_result.splits if_splits prod.splits)

lemma loop_body_cases:
  assumes "loop_body w s = (r, s', es)"
  shows "(list_all is_watch_event es \<and>
            (s' = s \<or> (path_exists w \<and> (\<exists>m. getmtime w = Inr m \<and> last_mtime s \<noteq> Some m
                          \<and> s' = s\<lparr>last_mtime := Some m\<rparr>))))
       \<or> (\<exists>m f u es0. path_exists w \<and> getmtime w = Inr m \<and> last_mtime s \<noteq> Some m
             \<and> file_read w = Inr f \<and> get_last_line f = Some u \<and> u \<noteq> last_processed_line s
             \<and> s' = s\<lparr>last_mtime := Some m, last_processed_line := u\<rparr>
             \<and> run_gemini_conversation w u s' = (r, s', es0)
             \<and> es = [CheckExists, StatMtime, ReadFile] @ es0 @ (if r = Inr () then [Sleep] else []))"
proof (cases "path_exists w \<and> (\<exists>m. getmtime w = Inr m \<and> last_mtime s \<noteq> Some m
      \<and> (\<exists>file u. file_read w = Inr file \<and> get_last_line file = Some u \<and> u \<noteq> last_processed_line s))")
  case True
  then obtain m f u where h: "path_exists w" "getmtime w = Inr m" "last_mtime s \<noteq> Some m"
     "file_read w = Inr f" "get_last_line f = Some u" "u \<noteq> last_processed_line s" by blast
  let ?s = "s\<lparr>last_mtime := Some m, last_processed_line := u\<rparr>"
  obtain r0 s0 es0 where run: "run_gemini_conversation w u ?s = (r0, s0, es0)" by (metis prod_cases3)
  have s0: "s0 = ?s" using run by (rule run_state)
  have ct: "check_transcript w s = (r0, ?s, [CheckExists, StatMtime, ReadFile] @ es0)"
    using check_transcript_dispatch[OF h] run s0 by simp
  have "loop_body w s = (r0, ?s, [CheckExists, StatMtime, ReadFile] @ es0 @ (if r0 = Inr () then [Sleep] else []))"
    unfolding loop_body_def using ct by (cases r0) (auto simp: bind_def emit_def)
  then have "r = r0" "s' = ?s" "es = [CheckExists, StatMtime, ReadFile] @ es0 @ (if r0 = Inr () then [Sleep] else [])"
    using assms by simp_all
  then show ?thesis using h run s0 by blast
next
  case False
  have "list_all is_watch_event es \<and>
            (s' = s \<or> (path_exists w \<and> (\<exists>m. getmtime w = Inr m \<and> last_mtime s \<noteq> Some m
                          \<and> s' = s\<lparr>last_mtime := Some m\<rparr>)))"
  proof (cases "path_exists w")
    case False
    then have "loop_body w s = (Inr (), s, [CheckExists, Sleep])"
      unfolding loop_defs prog_defs by simp
    then show ?thesis using assms by auto
  next
    case ex: True
    show ?thesis
    proof (cases "getmtime w")
      case (Inl e)
      then have "loop_body w s = (Inl e, s, [CheckExists, StatMtime])"
        using ex unfolding loop_defs prog_defs by simp
      then show ?thesis using assms by auto
    next
      case (Inr m)
      show ?thesis
      proof (cases "last_mtime s = Some m")
        case True
        then have "loop_body w s = (Inr (), s, [CheckExists, StatMtime, Sleep])"
          using ex Inr unfolding loop_defs prog_defs by simp
        then show ?thesis using assms by auto
      next
        case ch: False
        show ?thesis
        proof (cases "file_read w")
          case (Inl e)
          then have "loop_body w s = (Inl e, s\<lparr>last_mtime := Some m\<rparr>, [CheckExists, StatMtime, ReadFile])"
            using ex Inr ch unfolding loop_defs prog_defs by auto
          then show ?thesis using assms ex Inr ch by auto
        next
          case rd: (Inr f)
          have nd: "get_last_line f = None \<or> get_last_line f = Some (last_processed_line s)"
            using False ex Inr ch rd by (cases "get_last_line f") auto
          then have "loop_body w s = (Inr (), s\<lparr>last_mtime := Some m\<rparr>, [CheckExists, StatMtime, ReadFile, Sleep])"
            using ex Inr ch rd unfolding loop_defs prog_defs by auto
          then show ?thesis using assms ex Inr ch by auto
        qed
      qed
    qed
  qed
  then show ?thesis by blast
qed

lemma watch_no_success: "list_all is_watch_event es \<Longrightarrow> \<not> list_ex is_success_result es"
  by (induction es) (auto elim: is_watch_event.elims)

lemma watch_no_write: "list_all is_watch_event es \<Longrightarrow> WriteFile p c \<notin> set es"
  by (induction es) auto

lemma watch_no_user: "list_all is_watch_event es \<Longrightarrow> Print m \<notin> set es"
  by (induction es) auto


lemma loop_body_success:
  assumes "loop_body w s = (r, s', es)" and "list_ex is_success_result es"
  shows "r = Inl (SystemExit 0) \<and>
         (\<exists>pre n a v. es = pre @ [Invoke n a, Print (MsgResult v), Print MsgSuccess]
            \<and> eq_True v \<and> \<not> list_ex is_success_result pre)"
proof -
  have "\<not> list_all is_watch_event es" using assms(2) watch_no_success by blast
  then have "\<exists>u es0. run_gemini_conversation w u s' = (r, s', es0)
      \<and> es = [CheckExists, StatMtime, ReadFile] @ es0 @ (if r = Inr () then [Sleep] else [])"
    using loop_body_cases[OF assms(1)] by (elim disjE conjE exE) (simp, simp, blast)
  then obtain u es0 where run: "run_gemini_conversation w u s' = (r, s', es0)"
     and es: "es = [CheckExists, StatMtime, ReadFile] @ es0 @ (if r = Inr () then [Sleep] else [])"
    by blast
  have "list_ex is_success_result es0" using assms(2) es by (simp split: if_splits)
  from run_success[OF run this]
  obtain pre n a v where r: "r = Inl (SystemExit 0)"
     and es0: "es0 = pre @ [Invoke n a, Print (MsgResult v), Print MsgSuccess]"
     and v: "eq_True v" and pre: "\<not> list_ex is_success_result pre" by blast
  have "es = ([CheckExists, StatMtime, ReadFile] @ pre) @ [Invoke n a, Print (MsgResult v), Print MsgSuccess]"
    using es es0 r by simp
  moreover have "\<not> list_ex is_success_result ([CheckExists, StatMtime, ReadFile] @ pre)"
    using pre by simp
  ultimately show ?thesis using r v by blast
qed

lemma loop_body_no_write:
  assumes "loop_body w s = (r, s', es)"
  shows "WriteFile p c \<notin> set es"
proof (cases "list_all is_watch_event es")
  case True
  then show ?thesis by (rule watch_no_write)
next
  case False
  then have "\<exists>u es0. run_gemini_conversation w u s' = (r, s', es0)
      \<and> es = [CheckExists, StatMtime, ReadFile] @ es0 @ (if r = Inr () then [Sleep] else [])"
    using loop_body_cases[OF assms(1)] by (elim disjE conjE exE) (simp, simp, blast)
  then obtain u es0 where run: "run_gemini_conversation w u s' = (r, s', es0)"
     and es: "es = [CheckExists, StatMtime, ReadFile] @ es0 @ (if r = Inr () then [Sleep] else [])"
    by blast
  have "WriteFile p c \<notin> set es0" using run by (rule run_no_write)
  then show ?thesis using es by (simp split: if_splits)
qed

lemma main_loop_Cons:
  "main_loop (w # ws) s =
     (case loop_body w s of
        (Inl e, s', es) \<Rightarrow> (Inl e, s', es)
      | (Inr x, s', es) \<Rightarrow> (case main_loop ws s' of (r, s'', es') \<Rightarrow> (r, s'', es @ es')))"
  by (simp add: bind_def split: prod.splits sum.splits)

lemma main_loop_success:
  "main_loop ws s = (r, s', es) \<Longrightarrow> list_ex is_success_result es \<Longrightarrow>
     r = Inl (SystemExit 0) \<and>
         (\<exists>pre n a v. es = pre @ [Invoke n a, Print (MsgResult v), Print MsgSuccess]
            \<and> eq_True v \<and> \<not> list_ex is_success_result pre)"
proof (induction ws arbitrary: s r s' es)
  case Nil
  then show ?case by (simp add: ret_def)
next
  case (Cons w ws)
  obtain r1 s1 es1 where lb: "loop_body w s = (r1, s1, es1)" by (metis prod_cases3)
  show ?case
  proof (cases r1)
    case (Inl e)
    then have "(r, s', es) = (r1, s1, es1)" using Cons.prems(1) lb by (simp add: main_loop_Cons del: main_loop.simps)
    then show ?thesis using loop_body_success[OF lb] Cons.prems(2) by simp
  next
    case (Inr x)
    obtain r2 s2 es2 where ml: "main_loop ws s1 = (r2, s2, es2)" by (metis prod_cases3)
    have eq: "r = r2" "s' = s2" "es = es1 @ es2"
      using Cons.prems(1) lb Inr ml by (simp_all add: main_loop_Cons del: main_loop.simps)
    have no1: "\<not> list_ex is_success_result es1"
      using loop_body_success[OF lb] Inr by auto
    then have "list_ex is_success_result es2" using Cons.prems(2) eq by simp
    from Cons.IH[OF ml this]
    obtain pre n a v where r2: "r2 = Inl (SystemExit 0)"
       and es2: "es2 = pre @ [Invoke n a, Print (MsgResult v), Print MsgSuccess]"
       and v: "eq_True v" and pre: "\<not> list_ex is_success_result pre" by blast
    have "es = (es1 @ pre) @ [Invoke n a, Print (MsgResult v), Print MsgSuccess]"
      using eq es2 by simp
    moreover have "\<not> list_ex is_success_result (es1 @ pre)" using no1 pre by simp
    ultimately show ?thesis using eq r2 v by blast
  qed
qed

lemma main_loop_stops:
  "main_loop ws s = (Inl e, s', es) \<Longrightarrow> main_loop (ws @ later) s = (Inl e, s', es)"
proof (induction ws arbitrary: s s' es)
  case Nil
  then show ?case by (simp add: ret_def)
next
  case (Cons w ws)
  obtain r1 s1 es1 where lb: "loop_body w s = (r1, s1, es1)" by (metis prod_cases3)
  show ?case
  proof (cases r1)
    case (Inl e1)
    then show ?thesis using Cons.prems lb by (simp add: main_loop_Cons del: main_loop.simps)
  next
    case (Inr x)
    obtain r2 s2 es2 where ml: "main_loop ws s1 = (r2, s2, es2)" by (metis prod_cases3)
    have "r2 = Inl e" "s2 = s'" "es = es1 @ es2"
      using Cons.prems lb Inr ml by (simp_all add: main_loop_Cons del: main_loop.simps)
    then have "main_loop (ws @ later) s1 = (Inl e, s', es2)" using Cons.IH ml by simp
    then show ?thesis using lb Inr \<open>es = es1 @ es2\<close> by (simp add: main_loop_Cons del: main_loop.simps)
  qed
qed

lemma main_unfold:
  "main ws = (case main_loop ws initial_state of
                (r, s, es) \<Rightarrow> (r, s, [Print MsgReady, Print MsgMonitoring] @ es))"
  by (simp add: main_def bind_def emit_def split: prod.splits)

lemma main_thirsty:
  "main [sample_world 1 thirsty_file (call_response (ascii ''dispense_drink'')) (PyBool True)] =
     (Inl (SystemExit 0), \<lparr>last_mtime = Some 1, last_processed_line = thirsty\<rparr>,
      [Print MsgReady, Print MsgMonitoring, CheckExists, StatMtime, ReadFile,
       Print MsgNewRequest, Print (MsgUser thirsty), OracleCall (full_prompt thirsty),
       Print (MsgWantsCall (ascii ''dispense_drink'') []), Invoke (ascii ''dispense_drink'') [],
       Print (MsgResult (PyBool True)), Print MsgSuccess])"
proof -
  have ne: "thirsty \<noteq> []" by (simp add: thirsty_def ascii_def)
  show ?thesis
    unfolding main_def main_loop.simps loop_defs run_gemini_conversation_def prog_defs
    by (simp add: sample_defs get_thirsty initial_state_def ne Let_def)
qed

text \<open>
  Claim C1. In every run, once an action result that passes \<open>result == True\<close> has been
  printed, the process ends with \<open>SystemExit 0\<close>, status 0: the only event after that
  result is the success message, so there is no further poll, Oracle call or action;
  no earlier result of the run was a success; and whatever passes would have followed
  (\<open>later\<close>) change nothing, so a second utterance that would also succeed is never
  processed.
\<close>
theorem terminates_on_first_success:
  assumes "main ws = (r, s, tr)"
      and "Print (MsgResult v) \<in> set tr"
      and "eq_True v"
  shows "r = Inl (SystemExit 0) \<and> exit_status r = Some 0
       \<and> (\<exists>pre n a. tr = pre @ [Invoke n a, Print (MsgResult v), Print MsgSuccess]
             \<and> \<not> list_ex is_success_result pre)
       \<and> main (ws @ later) = main ws"
proof -
  obtain es where ml: "main_loop ws initial_state = (r, s, es)"
     and tr: "tr = [Print MsgReady, Print MsgMonitoring] @ es"
    using assms(1) by (auto simp: main_unfold split: prod.splits)
  have "Print (MsgResult v) \<in> set es" using assms(2) tr by auto
  then have succ: "list_ex is_success_result es"
    using assms(3) by (auto simp: list_ex_iff intro!: bexI[of _ "Print (MsgResult v)"])
  from main_loop_success[OF ml succ]
  obtain pre n a v' where r: "r = Inl (SystemExit 0)"
     and es: "es = pre @ [Invoke n a, Print (MsgResult v'), Print MsgSuccess]"
     and pre: "\<not> list_ex is_success_result pre" by blast
  have "Print (MsgResult v) \<notin> set pre"
    using pre assms(3) by (auto simp: list_ex_iff)
  then have vv: "v' = v" using \<open>Print (MsgResult v) \<in> set es\<close> es by auto
  have t: "tr = ([Print MsgReady, Print MsgMonitoring] @ pre) @ [Invoke n a, Print (MsgResult v), Print MsgSuccess]"
    using tr es vv by simp
  have p: "\<not> list_ex is_success_result ([Print MsgReady, Print MsgMonitoring] @ pre)"
    using pre by simp
  have "main_loop (ws @ later) initial_state = (Inl (SystemExit 0), s, es)"
    using main_loop_stops ml r by blast
  then have m: "main (ws @ later) = main ws"
    using ml r by (simp add: main_unfold)
  show ?thesis using r t p m by (simp only: exit_status.simps) blast
qed

theorem terminates_on_first_success_witness:
  "main ([sample_world 1 thirsty_file (call_response (ascii ''dispense_drink'')) (PyBool True)]
          @ [sample_world 2 [ascii ''I need a drink''] (call_response (ascii ''dispense_drink'')) (PyBool True)])
     = main [sample_world 1 thirsty_file (call_response (ascii ''dispense_drink'')) (PyBool True)]
   \<and> fst (main [sample_world 1 thirsty_file (call_response (ascii ''dispense_drink'')) (PyBool True)])
       = Inl (SystemExit 0)"
  using terminates_on_first_success[OF main_thirsty, of "PyBool True"
      "[sample_world 2 [ascii ''I need a drink''] (call_response (ascii ''dispense_drink'')) (PyBool True)]"]
  by (simp add: main_thirsty)

lemma main_loop_no_write:
  "main_loop ws s = (r, s', es) \<Longrightarrow> WriteFile p c \<notin> set es"
proof (induction ws arbitrary: s r s' es)
  case Nil
  then show ?case by (simp add: ret_def)
next
  case (Cons w ws)
  obtain r1 s1 es1 where lb: "loop_body w s = (r1, s1, es1)" by (metis prod_cases3)
  have w1: "WriteFile p c \<notin> set es1"
    using lb by (rule loop_body_no_write)
  show ?case
  proof (cases r1)
    case (Inl e)
    then show ?thesis using Cons.prems lb w1 by (simp add: main_loop_Cons del: main_loop.simps)
  next
    case (Inr x)
    obtain r2 s2 es2 where ml: "main_loop ws s1 = (r2, s2, es2)" by (metis prod_cases3)
    have "es = es1 @ es2" using Cons.prems lb Inr ml by (simp add: main_loop_Cons del: main_loop.simps)
    then show ?thesis using w1 Cons.IH[OF ml] by simp
  qed
qed

text \<open>
  Claim C8. No run writes a file: the write of \<open>dispense_done.flag\<close> stands after
  \<open>exit 0\<close> and is never reached.
\<close>
theorem flag_file_never_written:
  "WriteFile p c \<notin> set (snd (snd (main ws)))"
proof -
  obtain r s es where ml: "main_loop ws initial_state = (r, s, es)" by (metis prod_cases3)
  then have "snd (snd (main ws)) = [Print MsgReady, Print MsgMonitoring] @ es"
    by (simp add: main_unfold)
  then show ?thesis using main_loop_no_write[OF ml] by simp
qed

lemma loop_body_table:
  "loop_body w s =
     (if \<not> path_exists w then (Inr (), s, [CheckExists, Sleep])
      else case getmtime w of
        Inl e \<Rightarrow> (Inl e, s, [CheckExists, StatMtime])
      | Inr m \<Rightarrow>
          if last_mtime s = Some m then (Inr (), s, [CheckExists, StatMtime, Sleep])
          else case file_read w of
            Inl e \<Rightarrow> (Inl e, s\<lparr>last_mtime := Some m\<rparr>, [CheckExists, StatMtime, ReadFile])
          | Inr f \<Rightarrow>
              (case get_last_line f of
                 None \<Rightarrow> (Inr (), s\<lparr>last_mtime := Some m\<rparr>, [CheckExists, StatMtime, ReadFile, Sleep])
               | Some u \<Rightarrow>
                   if u = last_processed_line s
                   then (Inr (), s\<lparr>last_mtime := Some m\<rparr>, [CheckExists, StatMtime, ReadFile, Sleep])
                   else (case run_gemini_conversation w u
                                (s\<lparr>last_mtime := Some m, last_processed_line := u\<rparr>) of
                           (r, s', es0) \<Rightarrow>
                             (r, s\<lparr>last_mtime := Some m, last_processed_line := u\<rparr>,
                              [CheckExists, StatMtime, ReadFile] @ es0
                                @ (if r = Inr () then [Sleep] else [])))))"
proof (cases "path_exists w")
  case False
  then show ?thesis unfolding loop_defs prog_defs by simp
next
  case ex: True
  show ?thesis
  proof (cases "getmtime w")
    case (Inl e)
    then show ?thesis using ex unfolding loop_defs prog_defs by simp
  next
    case (Inr m)
    show ?thesis
    proof (cases "last_mtime s = Some m")
      case True
      then show ?thesis using ex Inr unfolding loop_defs prog_defs by simp
    next
      case ch: False
      show ?thesis
      proof (cases "file_read w")
        case (Inl e)
        then show ?thesis using ex Inr ch unfolding loop_defs prog_defs by auto
      next
        case rd: (Inr f)
        show ?thesis
        proof (cases "get_last_line f")
          case None
          then show ?thesis using ex Inr ch rd unfolding loop_defs prog_defs by auto
        next
          case (Some u)
          show ?thesis
          proof (cases "u = last_processed_line s")
            case True
            then show ?thesis using ex Inr ch rd Some unfolding loop_defs prog_defs by auto
          next
            case nu: False
            let ?s = "s\<lparr>last_mtime := Some m, last_processed_line := u\<rparr>"
            obtain r0 s0 es0 where run: "run_gemini_conversation w u ?s = (r0, s0, es0)"
              by (metis prod_cases3)
            have s0: "s0 = ?s" using run by (rule run_state)
            have ct: "check_transcript w s = (r0, ?s, [CheckExists, StatMtime, ReadFile] @ es0)"
              using check_transcript_dispatch[OF ex Inr ch rd Some nu] run s0 by simp
            have "loop_body w s =
                (r0, ?s, [CheckExists, StatMtime, ReadFile] @ es0 @ (if r0 = Inr () then [Sleep] else []))"
              unfolding loop_body_def using ct by (cases r0) (auto simp: bind_def emit_def)
            then show ?thesis using ex Inr ch rd Some nu run by simp
          qed
        qed
      qed
    qed
  qed
qed

lemma loop_body_same_line:
  assumes "file_read w = Inr f" and "get_last_line f = Some (last_processed_line s)"
      and "loop_body w s = (r, s', es)"
  shows "list_all is_watch_event es \<and> last_processed_line s' = last_processed_line s"
  using assms unfolding loop_body_table
  by (auto split: if_splits sum.splits)

lemma main_loop_same_line:
  assumes "\<forall>w\<in>set ws. \<exists>f. file_read w = Inr f \<and> get_last_line f = Some u"
      and "last_processed_line s = u"
  shows "list_all is_watch_event (snd (snd (main_loop ws s)))"
  using assms
proof (induction ws arbitrary: s)
  case Nil
  then show ?case by (simp add: ret_def)
next
  case (Cons w ws)
  obtain f where f: "file_read w = Inr f" "get_last_line f = Some (last_processed_line s)"
    using Cons.prems by auto
  obtain r1 s1 es1 where lb: "loop_body w s = (r1, s1, es1)" by (metis prod_cases3)
  have one: "list_all is_watch_event es1" "last_processed_line s1 = u"
    using loop_body_same_line[OF f lb] Cons.prems(2) by simp_all
  show ?case
  proof (cases r1)
    case (Inl e)
    then have "main_loop (w # ws) s = (Inl e, s1, es1)"
      using lb by (simp add: main_loop_Cons del: main_loop.simps)
    then show ?thesis using one(1) by simp
  next
    case (Inr x)
    have rest: "list_all is_watch_event (snd (snd (main_loop ws s1)))"
      using Cons.IH[of s1] Cons.prems(1) one(2) by simp
    obtain r2 s2 es2 where ml: "main_loop ws s1 = (r2, s2, es2)" by (metis prod_cases3)
    have "main_loop (w # ws) s = (r2, s2, es1 @ es2)"
      using lb Inr ml by (simp add: main_loop_Cons del: main_loop.simps)
    then show ?thesis using one(1) rest ml by simp
  qed
qed

text \<open>
  Claim C3 as stated fails for the recorded time: it is assigned before the file is
  read. Here the read fails, the exception leaves the loop, and the time is already
  recorded.
\<close>
theorem mtime_recorded_before_failed_read:
  "file_read unreadable_world = Inl OSError
   \<and> last_mtime initial_state = None
   \<and> loop_body unreadable_world initial_state =
       (Inl OSError, \<lparr>last_mtime = Some 1, last_processed_line = []\<rparr>,
        [CheckExists, StatMtime, ReadFile])"
  unfolding loop_defs prog_defs
  by (simp add: unreadable_world_def initial_state_def)

text \<open>
  Claim C3, as amended. In every pass: \<open>last_processed_line\<close> changes only after a
  successful read of a changed file, to the last non-empty line read. \<open>last_mtime\<close> is
  set to the file's modification time whenever the file exists and the time is
  obtained, so it changes exactly when that time differs from the recorded one; this
  happens before the file is read and whether or not the read succeeds: when the read
  raises, the exception leaves the loop with the time already recorded. When an
  utterance \<open>u\<close> is produced (the pass prints \<open>MsgUser u\<close>), the call of
  \<open>run_gemini_conversation\<close> starts in the state in which both fields are already
  updated; so, however the call goes, the passes that follow dispatch nothing as long as
  they find \<open>u\<close> as the last line.
\<close>

theorem watch_state_updated_before_dispatch:
  assumes "loop_body w s = (r, s', es)"
  shows "(last_processed_line s' \<noteq> last_processed_line s \<longrightarrow>
            path_exists w \<and>
            (\<exists>m f. getmtime w = Inr m \<and> last_mtime s \<noteq> Some m \<and> file_read w = Inr f
                 \<and> get_last_line f = Some (last_processed_line s') \<and> last_mtime s' = Some m))
       \<and> (\<forall>m. path_exists w \<and> getmtime w = Inr m \<longrightarrow> last_mtime s' = Some m)
       \<and> (\<forall>m e. path_exists w \<and> getmtime w = Inr m \<and> last_mtime s \<noteq> Some m \<and> file_read w = Inl e \<longrightarrow>
            r = Inl e \<and> s' = s\<lparr>last_mtime := Some m\<rparr> \<and> es = [CheckExists, StatMtime, ReadFile])
       \<and> (last_mtime s' \<noteq> last_mtime s \<longrightarrow>
            path_exists w \<and> (\<exists>m. getmtime w = Inr m \<and> last_mtime s \<noteq> Some m \<and> last_mtime s' = Some m))
       \<and> (\<forall>u. Print (MsgUser u) \<in> set es \<longrightarrow>
            (\<exists>m. getmtime w = Inr m \<and> s' = s\<lparr>last_mtime := Some m, last_processed_line := u\<rparr>
               \<and> check_transcript w s =
                   (case run_gemini_conversation w u s' of
                      (r0, s0, es0) \<Rightarrow> (r0, s0, [CheckExists, StatMtime, ReadFile] @ es0)))
            \<and> (\<forall>ws. (\<forall>w2\<in>set ws. \<exists>f2. file_read w2 = Inr f2 \<and> get_last_line f2 = Some u) \<longrightarrow>
                  list_all is_watch_event (snd (snd (main_loop ws s')))))"
proof -
  have a: "last_processed_line s' \<noteq> last_processed_line s \<longrightarrow>
            path_exists w \<and>
            (\<exists>m f. getmtime w = Inr m \<and> last_mtime s \<noteq> Some m \<and> file_read w = Inr f
                 \<and> get_last_line f = Some (last_processed_line s') \<and> last_mtime s' = Some m)"
    using assms unfolding loop_body_table
    by (auto split: if_splits sum.splits option.splits prod.splits)
  have b: "\<forall>m. path_exists w \<and> getmtime w = Inr m \<longrightarrow> last_mtime s' = Some m"
    using assms unfolding loop_body_table
    by (auto split: if_splits sum.splits option.splits prod.splits)
  have c: "\<forall>m e. path_exists w \<and> getmtime w = Inr m \<and> last_mtime s \<noteq> Some m \<and> file_read w = Inl e \<longrightarrow>
            r = Inl e \<and> s' = s\<lparr>last_mtime := Some m\<rparr> \<and> es = [CheckExists, StatMtime, ReadFile]"
    using assms unfolding loop_body_table by auto
  have d: "last_mtime s' \<noteq> last_mtime s \<longrightarrow>
            path_exists w \<and> (\<exists>m. getmtime w = Inr m \<and> last_mtime s \<noteq> Some m \<and> last_mtime s' = Some m)"
    using assms unfolding loop_body_table
    by (auto split: if_splits sum.splits option.splits prod.splits)
  have e: "(\<exists>m. getmtime w = Inr m \<and> s' = s\<lparr>last_mtime := Some m, last_processed_line := u\<rparr>
               \<and> check_transcript w s =
                   (case run_gemini_conversation w u s' of
                      (r0, s0, es0) \<Rightarrow> (r0, s0, [CheckExists, StatMtime, ReadFile] @ es0)))
            \<and> (\<forall>ws. (\<forall>w2\<in>set ws. \<exists>f2. file_read w2 = Inr f2 \<and> get_last_line f2 = Some u) \<longrightarrow>
                  list_all is_watch_event (snd (snd (main_loop ws s'))))"
    if u: "Print (MsgUser u) \<in> set es" for u
  proof -
    have nw: "\<not> list_all is_watch_event es" using u watch_no_user by blast
    then have "\<exists>m f u' es0. path_exists w \<and> getmtime w = Inr m \<and> last_mtime s \<noteq> Some m
             \<and> file_read w = Inr f \<and> get_last_line f = Some u' \<and> u' \<noteq> last_processed_line s
             \<and> s' = s\<lparr>last_mtime := Some m, last_processed_line := u'\<rparr>
             \<and> run_gemini_conversation w u' s' = (r, s', es0)
             \<and> es = [CheckExists, StatMtime, ReadFile] @ es0 @ (if r = Inr () then [Sleep] else [])"
      using loop_body_cases[OF assms] by (elim disjE conjE exE) (simp, simp, blast)
    then obtain m f u' es0 where h: "path_exists w" "getmtime w = Inr m" "last_mtime s \<noteq> Some m"
        "file_read w = Inr f" "get_last_line f = Some u'" "u' \<noteq> last_processed_line s"
       and s': "s' = s\<lparr>last_mtime := Some m, last_processed_line := u'\<rparr>"
       and run: "run_gemini_conversation w u' s' = (r, s', es0)"
       and es: "es = [CheckExists, StatMtime, ReadFile] @ es0 @ (if r = Inr () then [Sleep] else [])"
      by blast
    have "Print (MsgUser u) \<in> set es0" using u es by (auto split: if_splits)
    then have uu: "u = u'" using run_user[OF run] by blast
    have ct: "check_transcript w s =
        (case run_gemini_conversation w u s' of
           (r0, s0, es0) \<Rightarrow> (r0, s0, [CheckExists, StatMtime, ReadFile] @ es0))"
      using check_transcript_dispatch[OF h] s' uu by simp
    have lpl: "last_processed_line s' = u" using s' uu by simp
    have later: "\<forall>ws. (\<forall>w2\<in>set ws. \<exists>f2. file_read w2 = Inr f2 \<and> get_last_line f2 = Some u) \<longrightarrow>
                  list_all is_watch_event (snd (snd (main_loop ws s')))"
      using main_loop_same_line[OF _ lpl] by blast
    show ?thesis using h(2) s' uu ct later by blast
  qed
  show ?thesis using a b c d e by blast
qed

theorem watch_state_updated_before_dispatch_witness:
  "last_processed_line (fst (snd (loop_body
       (sample_world 1 thirsty_file empty_response PyNone) initial_state))) = thirsty
   \<and> last_mtime (fst (snd (loop_body
       (sample_world 1 thirsty_file empty_response PyNone) initial_state))) = Some 1
   \<and> list_all is_watch_event (snd (snd (main_loop
       [sample_world 2 thirsty_file (call_response (ascii ''dispense_drink'')) (PyBool True),
        sample_world 3 thirsty_file (call_response (ascii ''dispense_drink'')) (PyBool True)]
       \<lparr>last_mtime = Some 1, last_processed_line = thirsty\<rparr>)))
   \<and> last_mtime (fst (snd (loop_body unreadable_world initial_state))) = Some 1
   \<and> fst (loop_body unreadable_world initial_state) = Inl OSError"
proof -
  let ?s1 = "\<lparr>last_mtime = Some 1, last_processed_line = thirsty\<rparr>"
  let ?ws = "[sample_world 2 thirsty_file (call_response (ascii ''dispense_drink'')) (PyBool True),
        sample_world 3 thirsty_file (call_response (ascii ''dispense_drink'')) (PyBool True)]"
  have ne: "thirsty \<noteq> []" by (simp add: thirsty_def ascii_def)
  have lb: "loop_body (sample_world 1 thirsty_file empty_response PyNone) initial_state =
     (Inr (), ?s1,
      [CheckExists, StatMtime, ReadFile, Print MsgNewRequest, Print (MsgUser thirsty),
       OracleCall (full_prompt thirsty), Print MsgNonText, Sleep])"
    unfolding loop_defs run_gemini_conversation_def prog_defs
    by (simp add: sample_defs get_thirsty initial_state_def ne Let_def)
  have all: "\<forall>w2\<in>set ?ws. \<exists>f2. file_read w2 = Inr f2 \<and> get_last_line f2 = Some thirsty"
    by (simp add: sample_world_def get_thirsty)
  have "\<forall>ws. (\<forall>w2\<in>set ws. \<exists>f2. file_read w2 = Inr f2 \<and> get_last_line f2 = Some thirsty) \<longrightarrow>
           list_all is_watch_event (snd (snd (main_loop ws ?s1)))"
    using watch_state_updated_before_dispatch[OF lb] by simp
  then have later: "list_all is_watch_event (snd (snd (main_loop ?ws ?s1)))"
    using all by blast
  obtain r s' es where lbu: "loop_body unreadable_world initial_state = (r, s', es)"
    by (metis prod_cases3)
  have u: "path_exists unreadable_world" "getmtime unreadable_world = Inr 1"
     "last_mtime initial_state \<noteq> Some 1" "file_read unreadable_world = Inl OSError"
    by (simp_all add: unreadable_world_def initial_state_def)
  have "r = Inl OSError \<and> s' = initial_state\<lparr>last_mtime := Some 1\<rparr>"
    using watch_state_updated_before_dispatch[OF lbu] u by blast
  then show ?thesis using lb later lbu by simp
qed

end
